theory Spec2Isabelle
  imports Complex_Main
begin

section \<open>Configuration (config/settings.py)\<close>

text \<open>
  Python floats are modelled as exact reals: comparisons between finite floats agree with
  the comparisons of their values, and rounding is not represented.  Python strings are
  \<^typ>\<open>string\<close>.

  \<^verbatim>\<open>MAX_FILE_SIZE\<close> and \<^verbatim>\<open>SUPPORTED_FORMATS\<close> are fixed in the settings module.
\<close>

definition MAX_FILE_SIZE :: nat where
  "MAX_FILE_SIZE = 10 * 1024 * 1024"

definition SUPPORTED_FORMATS :: "string list" where
  "SUPPORTED_FORMATS = [''jpg'', ''jpeg'', ''png'']"

text \<open>
  The remaining settings are read from the secrets store when present; the record holds
  the values the module ends up with, and \<open>default_settings\<close> the ones it uses when the
  secrets store has none of the keys.
\<close>

record settings =
  THRESHOLD_MILD :: real
  THRESHOLD_SEVERE :: real
  HIGH_RISK_DISEASES :: "string list"

definition default_settings :: settings where
  "default_settings =
     \<lparr>THRESHOLD_MILD = 45 / 100, THRESHOLD_SEVERE = 80 / 100, HIGH_RISK_DISEASES = []\<rparr>"


section \<open>Severity (utils/model\_utils.py, compute\_severity)\<close>

text \<open>
  \<^verbatim>\<open>
  def compute_severity(confidence, disease_name, high_risk_diseases=None):
      if high_risk_diseases is None:
          high_risk_diseases = HIGH_RISK_DISEASES
      if disease_name in high_risk_diseases:
          return "severe"
      if confidence < THRESHOLD_MILD:
          return "mild"
      if confidence < THRESHOLD_SEVERE:
          return "moderate"
      return "severe"
  \<close>
\<close>

definition compute_severity :: "settings \<Rightarrow> real \<Rightarrow> string \<Rightarrow> string list option \<Rightarrow> string" where
  "compute_severity cfg confidence disease_name high_risk_diseases =
     (let high_risk = (case high_risk_diseases of
                         None \<Rightarrow> HIGH_RISK_DISEASES cfg
                       | Some h \<Rightarrow> h)
      in if disease_name \<in> set high_risk then ''severe''
         else if confidence < THRESHOLD_MILD cfg then ''mild''
         else if confidence < THRESHOLD_SEVERE cfg then ''moderate''
         else ''severe'')"


section \<open>Python string operations used by the sources\<close>

text \<open>
  \<^verbatim>\<open>str.lower()\<close>, restricted to the ASCII letters: every other character is left as it is.
  (No character outside \<open>A\<close>..\<open>Z\<close> lower-cases to one of the letters of
  \<^verbatim>\<open>jpg\<close>, \<^verbatim>\<open>jpeg\<close>, \<^verbatim>\<open>png\<close> or \<^verbatim>\<open>doctor\<close> alone, except the Kelvin sign for \<open>k\<close>,
  which none of these words contains.)
\<close>

definition lower_char :: "char \<Rightarrow> char" where
  "lower_char c =
     (case map_of (zip ''ABCDEFGHIJKLMNOPQRSTUVWXYZ'' ''abcdefghijklmnopqrstuvwxyz'') c of
        Some l \<Rightarrow> l
      | None \<Rightarrow> c)"

definition str_lower :: "string \<Rightarrow> string" where
  "str_lower s = map lower_char s"

text \<open>
  \<^verbatim>\<open>s.split(sep)\<close> for a one-character separator: the pieces between the occurrences of
  \<open>sep\<close>, empty pieces included; the result always has at least one piece.
\<close>

fun str_split :: "char \<Rightarrow> string \<Rightarrow> string list" where
  "str_split sep [] = [[]]"
| "str_split sep (c # cs) =
     (if c = sep then [] # str_split sep cs
      else (case str_split sep cs of
              [] \<Rightarrow> [[c]]
            | w # ws \<Rightarrow> (c # w) # ws))"


text \<open>
  \<^verbatim>\<open>str.strip()\<close> removes leading and trailing whitespace.  A \<^typ>\<open>char\<close> stands for
  a code point below \<open>U+0100\<close>; among these Python counts as whitespace the tab, line
  feed, vertical tab, form feed, carriage return, the four separators
  \<open>0x1C\<close>..\<open>0x1F\<close>, the space, the next-line control \<open>0x85\<close> and the no-break
  space \<open>0xA0\<close>.
\<close>

definition is_space :: "char \<Rightarrow> bool" where
  "is_space c \<longleftrightarrow>
     c \<in> set [CHR 0x09, CHR 0x0A, CHR 0x0B, CHR 0x0C, CHR 0x0D,
               CHR 0x1C, CHR 0x1D, CHR 0x1E, CHR 0x1F, CHR '' '', CHR 0x85, CHR 0xA0]"

definition str_strip :: "string \<Rightarrow> string" where
  "str_strip s = rev (dropWhile is_space (rev (dropWhile is_space s)))"

text \<open>\<^verbatim>\<open>s.startswith(p)\<close>, and \<^verbatim>\<open>sub in s\<close> for strings.\<close>

definition startswith :: "string \<Rightarrow> string \<Rightarrow> bool" where
  "startswith s p \<longleftrightarrow> take (length p) s = p"

fun str_contains :: "string \<Rightarrow> string \<Rightarrow> bool" where
  "str_contains sub [] = (sub = [])"
| "str_contains sub (c # cs) = (startswith (c # cs) sub \<or> str_contains sub cs)"

text \<open>
  \<^verbatim>\<open>s.replace(old, new)\<close>: every occurrence of \<open>old\<close>, found from the left and without
  overlap, is replaced; an empty \<open>old\<close> matches before every character and at the end.
\<close>

function str_replace :: "string \<Rightarrow> string \<Rightarrow> string \<Rightarrow> string" where
  "str_replace old new s =
     (if old = [] then new @ concat (map (\<lambda>c. c # new) s)
      else if s = [] then []
      else if startswith s old then new @ str_replace old new (drop (length old) s)
      else hd s # str_replace old new (tl s))"
  by pat_completeness auto
termination
  by (relation "measure (\<lambda>(old, new, s). length s)") auto

declare str_replace.simps [simp del]

text \<open>\<^verbatim>\<open>sep.join(xs)\<close>.\<close>

fun str_join :: "string \<Rightarrow> string list \<Rightarrow> string" where
  "str_join sep [] = []"
| "str_join sep [x] = x"
| "str_join sep (x # y # ys) = x @ sep @ str_join sep (y # ys)"


section \<open>Advice (services/gemini\_service.py)\<close>

text \<open>The dictionary both functions return, with its four keys.\<close>

record advice_result =
  via :: string
  bullets :: "string list"
  consult :: string
  advice_text :: string

text \<open>
  \<^verbatim>\<open>
  def get_fallback_measures():
      return {"via": "fallback", "bullets": [...], "consult": "...", "advice_text": "..."}
  \<close>
  with the literals of the source.
\<close>

definition get_fallback_measures :: advice_result where
  "get_fallback_measures =
     \<lparr>via = ''fallback'',
      bullets =
        [''Keep the area clean and dry; wash gently with mild soap.'',
         ''Avoid scratching or picking at the area to reduce infection risk.'',
         ''Use gentle, fragrance-free moisturizers and avoid known irritants.''],
      consult = ''Consult a healthcare professional if symptoms worsen or persist.'',
      advice_text =
        ''Keep the area clean and dry. Avoid scratching. Use gentle moisturizers.''\<rparr>"

text \<open>
  What the \<^verbatim>\<open>try\<close> block gets from the generative service: either an exception (from
  the import, the configuration, the call or the access to \<^verbatim>\<open>response.text\<close>; all are caught
  by \<^verbatim>\<open>except Exception\<close>), or the text of the response.  The disease name and the
  confidence only enter the prompt, and the image bytes are not used, so the outcome of
  the call stands for all three arguments.
\<close>

datatype service_outcome = Service_raises string | Service_text string

text \<open>
  \<^verbatim>\<open>lines = [line.strip() for line in text.split('\n') if line.strip()]\<close>
\<close>

definition response_lines :: "string \<Rightarrow> string list" where
  "response_lines text =
     map str_strip (filter (\<lambda>line. str_strip line \<noteq> []) (str_split (CHR 0x0A) text))"

text \<open>\<^verbatim>\<open>line.startswith(('1.', '2.', '3.'))\<close>\<close>

definition is_numbered :: "string \<Rightarrow> bool" where
  "is_numbered line \<longleftrightarrow>
     startswith line ''1.'' \<or> startswith line ''2.'' \<or> startswith line ''3.''"

text \<open>
  \<^verbatim>\<open>
  bullets = []
  consult_line = ""
  for line in lines:
      if line.startswith(('1.', '2.', '3.')):
          bullets.append(line[2:].strip())
      elif 'doctor' in line.lower():
          consult_line = line.replace('When to see a doctor:', '').strip()
  \<close>
  The loop, with the two variables it updates as the state.
\<close>

fun parse_lines :: "string list \<Rightarrow> string list \<times> string \<Rightarrow> string list \<times> string" where
  "parse_lines [] (bs, consult_line) = (bs, consult_line)"
| "parse_lines (line # rest) (bs, consult_line) =
     (if is_numbered line
      then parse_lines rest (bs @ [str_strip (drop 2 line)], consult_line)
      else if str_contains ''doctor'' (str_lower line)
      then parse_lines rest
             (bs, str_strip (str_replace ''When to see a doctor:'' [] line))
      else parse_lines rest (bs, consult_line))"

text \<open>
  \<^verbatim>\<open>if GEMINI_API_KEY:\<close> holds for a key that is neither \<^verbatim>\<open>None\<close> nor empty.
\<close>

definition truthy :: "string option \<Rightarrow> bool" where
  "truthy k = (case k of None \<Rightarrow> False | Some s \<Rightarrow> s \<noteq> [])"

text \<open>
  \<^verbatim>\<open>
  def get_preventive_measures_from_gemini(disease, confidence, image_bytes):
      if GEMINI_API_KEY:
          try:
              ... response = model.generate_content(prompt); text = response.text
              ... (lines, bullets, consult_line as above)
              if bullets:
                  return {"via": "gemini", "bullets": bullets, "consult": consult_line,
                          "advice_text": " ".join(bullets) + " " + consult_line}
          except Exception as e:
              st.warning(f"Gemini API call failed: {e}")
      return get_fallback_measures()
  \<close>
  The first argument is the configured \<^verbatim>\<open>GEMINI_API_KEY\<close>.
\<close>

definition get_preventive_measures_from_gemini ::
    "string option \<Rightarrow> service_outcome \<Rightarrow> advice_result" where
  "get_preventive_measures_from_gemini api_key outcome =
     (if truthy api_key
      then (case outcome of
              Service_raises e \<Rightarrow> get_fallback_measures
            | Service_text text \<Rightarrow>
                (case parse_lines (response_lines text) ([], []) of
                   (bs, consult_line) \<Rightarrow>
                     if bs \<noteq> []
                     then \<lparr>via = ''gemini'', bullets = bs, consult = consult_line,
                           advice_text = str_join '' '' bs @ '' '' @ consult_line\<rparr>
                     else get_fallback_measures))
      else get_fallback_measures)"



section \<open>Class registry and prediction (utils/model\_utils.py)\<close>

text \<open>\<^verbatim>\<open>str(i)\<close> for a non-negative integer: its decimal digits, without leading zeros.\<close>

function str_nat :: "nat \<Rightarrow> string" where
  "str_nat n =
     (if n < 10 then [char_of (48 + n)]
      else str_nat (n div 10) @ [char_of (48 + n mod 10)])"
  by pat_completeness auto
termination
  by (relation "measure id") auto

declare str_nat.simps [simp del]

text \<open>What \<^verbatim>\<open>json.load\<close> returns.  An object keeps its members in insertion order.\<close>

datatype json =
    JNull
  | JBool bool
  | JNumber real
  | JString string
  | JArray "json list"
  | JObject "(string \<times> json) list"

text \<open>
  \<^verbatim>\<open>
  def load_class_names():
      if CLASSES_JSON.exists():
          with open(CLASSES_JSON, "r", encoding="utf-8") as f:
              data = json.load(f)
              if isinstance(data, dict):
                  if "classes" in data and isinstance(data["classes"], list):
                      return data["classes"]
                  try:
                      return [data[str(i)] for i in range(len(data))]
                  except Exception:
                      return list(data.values())
              elif isinstance(data, list):
                  return data
      return []
  \<close>
  The argument is the parsed content of the file, \<open>None\<close> when the file does not exist.
  The list comprehension raises \<^verbatim>\<open>KeyError\<close> at the first missing key; \<open>those\<close> is
  \<open>None\<close> exactly then.
\<close>

definition load_class_names :: "json option \<Rightarrow> json list" where
  "load_class_names file =
     (case file of
        None \<Rightarrow> []
      | Some data \<Rightarrow>
          (case data of
             JObject kvs \<Rightarrow>
               (case map_of kvs ''classes'' of
                  Some (JArray classes) \<Rightarrow> classes
                | _ \<Rightarrow>
                    (case those (map (\<lambda>i. map_of kvs (str_nat i)) [0..<length kvs]) of
                       Some vs \<Rightarrow> vs
                     | None \<Rightarrow> map snd kvs))
           | JArray xs \<Rightarrow> xs
           | _ \<Rightarrow> []))"

text \<open>
  \<^verbatim>\<open>np.argmax\<close> of an empty array raises \<^verbatim>\<open>ValueError\<close>; it is the only exception of
  the part of \<^verbatim>\<open>predict_image\<close> that follows the call of the model.
\<close>

datatype error = ValueError

text \<open>
  The dictionary \<^verbatim>\<open>predict_image\<close> returns.  \<^verbatim>\<open>probabilities\<close> is a Python dictionary,
  kept as an association list in insertion order with pairwise different keys.
\<close>

record prediction_result =
  class_id :: nat
  disease :: string
  confidence :: real
  probabilities :: "(string \<times> real) list"

text \<open>
  \<^verbatim>\<open>
  s = float(np.sum(preds))
  if s <= 0:
      probs = np.ones_like(preds) / len(preds)
  else:
      probs = preds / s
  \<close>
  on the flattened score vector \<^verbatim>\<open>preds\<close>, in exact arithmetic: the overflow and the
  rounding of the float sum and quotients are not represented, so what is proved below
  about the values of the normalized vector (as opposed to its length and the places its
  entries go to) is a statement about the exact quotients.
\<close>

definition normalize_scores :: "real list \<Rightarrow> real list" where
  "normalize_scores preds =
     (let s = sum_list preds
      in if s \<le> 0 then map (\<lambda>one. 1 / real (length preds)) preds
         else map (\<lambda>p. p / s) preds)"

text \<open>
  \<^verbatim>\<open>np.argmax\<close>: a scan that keeps the first position of the largest value seen, and
  moves only to a strictly larger value.
\<close>

fun argmax_loop :: "real list \<Rightarrow> nat \<Rightarrow> nat \<Rightarrow> real \<Rightarrow> nat" where
  "argmax_loop [] i best best_val = best"
| "argmax_loop (x # xs) i best best_val =
     (if x > best_val then argmax_loop xs (Suc i) i x
      else argmax_loop xs (Suc i) best best_val)"

definition np_argmax :: "real list \<Rightarrow> error + nat" where
  "np_argmax xs = (case xs of [] \<Rightarrow> Inl ValueError | x # rest \<Rightarrow> Inr (argmax_loop rest 1 0 x))"

text \<open>
  \<^verbatim>\<open>d[k] = v\<close>: an existing key keeps its position and takes the new value; a new key
  is added at the end.
\<close>

fun dict_set :: "'k \<Rightarrow> 'v \<Rightarrow> ('k \<times> 'v) list \<Rightarrow> ('k \<times> 'v) list" where
  "dict_set k v [] = [(k, v)]"
| "dict_set k v ((k', v') # m) =
     (if k' = k then (k', v) # m else (k', v') # dict_set k v m)"

text \<open>
  \<^verbatim>\<open>class_names[i] if (class_names and i < len(class_names)) else str(i)\<close>, which the
  source writes once for \<^verbatim>\<open>top_idx\<close> and once for every index of the loop.
\<close>

definition class_label :: "string list \<Rightarrow> nat \<Rightarrow> string" where
  "class_label class_names i =
     (if class_names \<noteq> [] \<and> i < length class_names then class_names ! i else str_nat i)"

text \<open>
  \<^verbatim>\<open>
  def predict_image(model, image_bytes, class_names):
      ... preds = np.asarray(model.predict(x_batch)).reshape(-1)
      (probs as above)
      top_idx = int(np.argmax(probs))
      top_conf = float(probs[top_idx])
      if class_names and len(class_names) > top_idx:
          top_label = class_names[top_idx]
      else:
          top_label = str(top_idx)
      probs_map = {}
      for i, p in enumerate(probs):
          name = class_names[i] if (class_names and i < len(class_names)) else str(i)
          probs_map[name] = float(p)
      return {"class_id": top_idx, "disease": top_label, "confidence": top_conf,
              "probabilities": probs_map}
  \<close>
  The first argument is the flattened output of the model for the image.
\<close>

definition predict_image :: "real list \<Rightarrow> string list \<Rightarrow> error + prediction_result" where
  "predict_image preds class_names =
     (let probs = normalize_scores preds
      in case np_argmax probs of
           Inl e \<Rightarrow> Inl e
         | Inr top_idx \<Rightarrow>
             let top_conf = probs ! top_idx;
                 top_label = class_label class_names top_idx;
                 probs_map = fold (\<lambda>(i, p) m. dict_set (class_label class_names i) p m)
                               (enumerate 0 probs) []
             in Inr \<lparr>class_id = top_idx, disease = top_label, confidence = top_conf,
                      probabilities = probs_map\<rparr>)"


section \<open>Upload validation (utils/image\_utils.py, validate\_uploaded\_file)\<close>

text \<open>
  The uploaded file object, as far as validation reads it: its declared name and its size
  in bytes.  \<^verbatim>\<open>None\<close> is \<open>None\<close>.
\<close>

record uploaded_file =
  name :: string
  size_bytes :: nat

text \<open>
  The second component of the result is a message for the user.  Two of the four messages
  interpolate values (one of them formatted as a float with one decimal), so the messages
  are kept as constructors carrying the interpolated values:
  \<^item> \<open>No_file_uploaded\<close>: \<^verbatim>\<open>"No file uploaded"\<close>
  \<^item> \<open>File_size_exceeds_limit size limit\<close>:
    \<^verbatim>\<open>f"File size ({size/1024/1024:.1f}MB) exceeds limit ({MAX_FILE_SIZE/1024/1024}MB)"\<close>
  \<^item> \<open>Unsupported_format formats\<close>:
    \<^verbatim>\<open>f"Unsupported format. Please use: {', '.join(SUPPORTED_FORMATS)}"\<close>
  \<^item> \<open>Valid_file\<close>: \<^verbatim>\<open>"Valid file"\<close>
\<close>

datatype message =
    No_file_uploaded
  | File_size_exceeds_limit nat nat
  | Unsupported_format "string list"
  | Valid_file

text \<open>
  \<^verbatim>\<open>
  def validate_uploaded_file(uploaded_file):
      if uploaded_file is None:
          return False, "No file uploaded"
      if uploaded_file.size > MAX_FILE_SIZE:
          return False, f"File size (...) exceeds limit (...)"
      file_extension = uploaded_file.name.split('.')[-1].lower()
      if file_extension not in SUPPORTED_FORMATS:
          return False, f"Unsupported format. Please use: ..."
      return True, "Valid file"
  \<close>
  \<^verbatim>\<open>[-1]\<close> cannot fail, since \<^verbatim>\<open>split\<close> never returns an empty list
  (lemma \<open>str_split_not_Nil\<close> below).
\<close>

definition validate_uploaded_file :: "uploaded_file option \<Rightarrow> bool \<times> message" where
  "validate_uploaded_file uploaded =
     (case uploaded of
        None \<Rightarrow> (False, No_file_uploaded)
      | Some f \<Rightarrow>
          if size_bytes f > MAX_FILE_SIZE
          then (False, File_size_exceeds_limit (size_bytes f) MAX_FILE_SIZE)
          else let file_extension = str_lower (last (str_split (CHR ''.'') (name f)))
               in if file_extension \<notin> set SUPPORTED_FORMATS
                  then (False, Unsupported_format SUPPORTED_FORMATS)
                  else (True, Valid_file))"


section \<open>Properties of the severity rule\<close>

text \<open>
  C1. With the default thresholds, \<open>compute_severity c d H\<close> is "severe" whenever \<open>d\<close> is
  in the high-risk list \<open>H\<close>, whatever \<open>c\<close> is; otherwise it is "mild" for \<open>c < 0.45\<close>,
  "moderate" for \<open>0.45 \<le> c < 0.80\<close> and "severe" for \<open>c \<ge> 0.80\<close>.  Both comparisons are
  strict, so a confidence equal to a threshold lands in the higher tier.
\<close>

theorem compute_severity_tiers:
  "(d \<in> set H \<longrightarrow> compute_severity default_settings c d (Some H) = ''severe'') \<and>
   (d \<notin> set H \<and> c < 45 / 100 \<longrightarrow> compute_severity default_settings c d (Some H) = ''mild'') \<and>
   (d \<notin> set H \<and> 45 / 100 \<le> c \<and> c < 80 / 100 \<longrightarrow>
      compute_severity default_settings c d (Some H) = ''moderate'') \<and>
   (d \<notin> set H \<and> 80 / 100 \<le> c \<longrightarrow> compute_severity default_settings c d (Some H) = ''severe'') \<and>
   (d \<notin> set H \<longrightarrow> compute_severity default_settings (45 / 100) d (Some H) = ''moderate'') \<and>
   (d \<notin> set H \<longrightarrow> compute_severity default_settings (80 / 100) d (Some H) = ''severe'')"
  by (simp add: compute_severity_def default_settings_def)

theorem compute_severity_tiers_witness:
  "compute_severity default_settings 0 ''X'' (Some [''X'']) = ''severe'' \<and>
   compute_severity default_settings (44999 / 100000) ''X'' (Some []) = ''mild'' \<and>
   compute_severity default_settings (79999 / 100000) ''X'' (Some []) = ''moderate'' \<and>
   compute_severity default_settings (45 / 100) ''X'' (Some []) = ''moderate'' \<and>
   compute_severity default_settings (80 / 100) ''X'' (Some []) = ''severe''"
  using compute_severity_tiers [of "''X''" "[''X'']" 0]
    compute_severity_tiers [of "''X''" "[]" "44999 / 100000"]
    compute_severity_tiers [of "''X''" "[]" "79999 / 100000"]
  by simp


section \<open>Properties of the string operations\<close>

lemma str_split_not_Nil: "str_split sep s \<noteq> []"
  by (induction s) (auto split: list.splits)

lemma last_str_split_no_sep: "sep \<notin> set s \<Longrightarrow> str_split sep s = [s]"
  by (induction s) auto

lemma length_str_split: "length (str_split sep s) = Suc (length (filter (\<lambda>c. c = sep) s))"
  by (induction s) (auto split: list.splits)

lemma last_str_split_after_sep:
  "sep \<notin> set ext \<Longrightarrow> last (str_split sep (pre @ sep # ext)) = ext"
proof (induction pre)
  case Nil
  then show ?case by (simp add: last_str_split_no_sep)
next
  case (Cons c pre)
  have "length (str_split sep (pre @ sep # ext)) \<ge> 2"
    by (simp add: length_str_split)
  then obtain w v ws where "str_split sep (pre @ sep # ext) = w # v # ws"
    by (cases "str_split sep (pre @ sep # ext)"; cases "tl (str_split sep (pre @ sep # ext))") auto
  with Cons show ?case
    by auto
qed


section \<open>Properties of upload validation\<close>

lemma validate_within_limit:
  "size_bytes f \<le> MAX_FILE_SIZE \<Longrightarrow>
   validate_uploaded_file (Some f) =
     (if str_lower (last (str_split (CHR ''.'') (name f))) \<in> set SUPPORTED_FORMATS
      then (True, Valid_file) else (False, Unsupported_format SUPPORTED_FORMATS))"
  by (simp add: validate_uploaded_file_def Let_def)

text \<open>
  C6. A missing file is rejected with the no-file message.  A file longer than the
  maximum of 10 MiB is rejected with the too-large message.  A file of exactly the maximum
  size whose extension (the part of the name after its last dot, lower-cased) is one of
  jpg, jpeg, png is accepted.  A file within the limit whose extension is none of these is
  rejected with the unsupported-format message, as is the one-byte file \<open>photo.GIF\<close>.
  The size check comes first, so the extension only decides for files within the limit.
\<close>

theorem validate_uploaded_file_cases:
  "MAX_FILE_SIZE = 10485760 \<and>
   validate_uploaded_file None = (False, No_file_uploaded) \<and>
   (size_bytes f > MAX_FILE_SIZE \<longrightarrow>
      validate_uploaded_file (Some f) =
        (False, File_size_exceeds_limit (size_bytes f) MAX_FILE_SIZE)) \<and>
   (size_bytes f = MAX_FILE_SIZE \<and> name f = pre @ CHR ''.'' # ext \<and> CHR ''.'' \<notin> set ext \<and>
    str_lower ext \<in> {''jpg'', ''jpeg'', ''png''} \<longrightarrow>
      validate_uploaded_file (Some f) = (True, Valid_file)) \<and>
   (size_bytes f \<le> MAX_FILE_SIZE \<and> name f = pre @ CHR ''.'' # ext \<and> CHR ''.'' \<notin> set ext \<and>
    str_lower ext \<notin> {''jpg'', ''jpeg'', ''png''} \<longrightarrow>
      validate_uploaded_file (Some f) = (False, Unsupported_format [''jpg'', ''jpeg'', ''png'']))"
proof -
  have size: "MAX_FILE_SIZE = 10485760"
    by (simp add: MAX_FILE_SIZE_def)
  have none: "validate_uploaded_file None = (False, No_file_uploaded)"
    by (simp add: validate_uploaded_file_def)
  have large: "size_bytes f > MAX_FILE_SIZE \<longrightarrow>
      validate_uploaded_file (Some f) =
        (False, File_size_exceeds_limit (size_bytes f) MAX_FILE_SIZE)"
    by (simp add: validate_uploaded_file_def)
  have ext: "size_bytes f \<le> MAX_FILE_SIZE \<and> name f = pre @ CHR ''.'' # ext \<and> CHR ''.'' \<notin> set ext \<longrightarrow>
      validate_uploaded_file (Some f) =
        (if str_lower ext \<in> {''jpg'', ''jpeg'', ''png''}
         then (True, Valid_file) else (False, Unsupported_format [''jpg'', ''jpeg'', ''png'']))"
    by (simp add: validate_within_limit last_str_split_after_sep SUPPORTED_FORMATS_def)
  from size none large ext show ?thesis
    by simp
qed

theorem validate_uploaded_file_cases_witness:
  "validate_uploaded_file (Some \<lparr>name = ''photo.jpg'', size_bytes = 10485761\<rparr>) =
     (False, File_size_exceeds_limit 10485761 10485760) \<and>
   validate_uploaded_file (Some \<lparr>name = ''photo.jpg'', size_bytes = 10485760\<rparr>) =
     (True, Valid_file) \<and>
   validate_uploaded_file (Some \<lparr>name = ''photo.GIF'', size_bytes = 1\<rparr>) =
     (False, Unsupported_format [''jpg'', ''jpeg'', ''png''])"
  using
    validate_uploaded_file_cases
      [of "\<lparr>name = ''photo.jpg'', size_bytes = 10485761\<rparr>" "''photo''" "''jpg''"]
    validate_uploaded_file_cases
      [of "\<lparr>name = ''photo.jpg'', size_bytes = 10485760\<rparr>" "''photo''" "''jpg''"]
    validate_uploaded_file_cases
      [of "\<lparr>name = ''photo.GIF'', size_bytes = 1\<rparr>" "''photo''" "''GIF''"]
  by (simp add: str_lower_def lower_char_def)

text \<open>
  C10. For a file within the size limit whose name has no dot, the format check is applied
  to the whole lower-cased name: the file is accepted exactly when that is jpg, jpeg or
  png, and rejected as unsupported otherwise.
\<close>

theorem validate_dotless_name:
  "CHR ''.'' \<notin> set (name f) \<and> size_bytes f \<le> MAX_FILE_SIZE \<longrightarrow>
   validate_uploaded_file (Some f) =
     (if str_lower (name f) \<in> {''jpg'', ''jpeg'', ''png''}
      then (True, Valid_file) else (False, Unsupported_format [''jpg'', ''jpeg'', ''png'']))"
  by (simp add: validate_within_limit last_str_split_no_sep SUPPORTED_FORMATS_def)

theorem validate_dotless_name_witness:
  "validate_uploaded_file (Some \<lparr>name = ''JpG'', size_bytes = 1\<rparr>) = (True, Valid_file) \<and>
   validate_uploaded_file (Some \<lparr>name = ''jpeg'', size_bytes = 10485760\<rparr>) = (True, Valid_file) \<and>
   validate_uploaded_file (Some \<lparr>name = ''PNG'', size_bytes = 0\<rparr>) = (True, Valid_file) \<and>
   validate_uploaded_file (Some \<lparr>name = ''photo'', size_bytes = 1\<rparr>) =
     (False, Unsupported_format [''jpg'', ''jpeg'', ''png''])"
  using
    validate_dotless_name [of "\<lparr>name = ''JpG'', size_bytes = 1\<rparr>"]
    validate_dotless_name [of "\<lparr>name = ''jpeg'', size_bytes = 10485760\<rparr>"]
    validate_dotless_name [of "\<lparr>name = ''PNG'', size_bytes = 0\<rparr>"]
    validate_dotless_name [of "\<lparr>name = ''photo'', size_bytes = 1\<rparr>"]
  by (simp add: str_lower_def lower_char_def MAX_FILE_SIZE_def)


section \<open>Properties of the advice resolver\<close>

lemma parse_lines_bullets:
  "fst (parse_lines ls (bs, c)) = bs @ map (\<lambda>l. str_strip (drop 2 l)) (filter is_numbered ls)"
  by (induction ls arbitrary: bs c) auto

lemma fallback_fields:
  "via get_fallback_measures = ''fallback''"
  "length (bullets get_fallback_measures) = 3"
  "consult get_fallback_measures \<noteq> []"
  by (simp_all add: get_fallback_measures_def)

lemma generated_iff:
  "via (get_preventive_measures_from_gemini k outcome) = ''gemini'' \<longleftrightarrow>
   truthy k \<and> (\<exists>text. outcome = Service_text text \<and> filter is_numbered (response_lines text) \<noteq> [])"
proof (cases outcome)
  case (Service_raises e)
  then show ?thesis
    by (simp add: get_preventive_measures_from_gemini_def fallback_fields)
next
  case (Service_text resp)
  obtain bs c where p: "parse_lines (response_lines resp) ([], []) = (bs, c)"
    by (cases "parse_lines (response_lines resp) ([], [])")
  have "bs = map (\<lambda>l. str_strip (drop 2 l)) (filter is_numbered (response_lines resp))"
    using parse_lines_bullets [of "response_lines resp" "[]" "[]"] p by simp
  with Service_text p show ?thesis
    by (simp add: get_preventive_measures_from_gemini_def fallback_fields)
qed

text \<open>
  C7. The resolver returns a result for every input: an exception of the external call is
  an input of the model, not an outcome.  Without an API key, when the call raises (a
  timeout raised by the client included), and when no line of the response yields a
  bullet, the result is the fixed fallback payload, whose via is "fallback", which has
  exactly 3 bullets and whose consult line is not empty.
\<close>

theorem advice_resolver_fallback:
  "(\<not> truthy k \<longrightarrow> get_preventive_measures_from_gemini k outcome = get_fallback_measures) \<and>
   get_preventive_measures_from_gemini k (Service_raises e) = get_fallback_measures \<and>
   (filter is_numbered (response_lines text) = [] \<longrightarrow>
      get_preventive_measures_from_gemini k (Service_text text) = get_fallback_measures) \<and>
   via get_fallback_measures = ''fallback'' \<and>
   length (bullets get_fallback_measures) = 3 \<and>
   consult get_fallback_measures \<noteq> []"
proof -
  have "filter is_numbered (response_lines text) = [] \<longrightarrow>
      get_preventive_measures_from_gemini k (Service_text text) = get_fallback_measures"
    using parse_lines_bullets [of "response_lines text" "[]" "[]"]
    by (auto simp: get_preventive_measures_from_gemini_def split: prod.splits)
  then show ?thesis
    by (simp add: get_preventive_measures_from_gemini_def fallback_fields)
qed

theorem advice_resolver_fallback_witness:
  "get_preventive_measures_from_gemini None (Service_text ''1. Rest.'') = get_fallback_measures \<and>
   get_preventive_measures_from_gemini (Some ''key'') (Service_raises ''timeout'') =
     get_fallback_measures \<and>
   get_preventive_measures_from_gemini (Some ''key'') (Service_text ''Sorry, I cannot help.'') =
     get_fallback_measures"
proof -
  have a: "\<not> truthy None"
    by (simp add: truthy_def)
  have b: "filter is_numbered (response_lines ''Sorry, I cannot help.'') = []"
    by code_simp
  from a b
    advice_resolver_fallback [of None "Service_text ''1. Rest.''" "''timeout''" "[]"]
    advice_resolver_fallback
      [of "Some ''key''" "Service_raises ''timeout''" "''timeout''" "''Sorry, I cannot help.''"]
  show ?thesis
    by simp
qed

text \<open>
  C8, as stated, fails for the fallback payload: its \<open>advice_text\<close> is a shorter fixed
  sentence, not its bullets joined by spaces and followed by its consult line.
\<close>

theorem advice_text_fallback_counterexample:
  "advice_text (get_preventive_measures_from_gemini None (Service_raises [])) \<noteq>
     str_join '' '' (bullets (get_preventive_measures_from_gemini None (Service_raises []))) @
     '' '' @ consult (get_preventive_measures_from_gemini None (Service_raises [])) \<and>
   advice_text (get_preventive_measures_from_gemini None (Service_raises [])) \<noteq>
     str_join '' '' (bullets (get_preventive_measures_from_gemini None (Service_raises []))) @
     consult (get_preventive_measures_from_gemini None (Service_raises [])) \<and>
   advice_text (get_preventive_measures_from_gemini None (Service_raises [])) =
     ''Keep the area clean and dry. Avoid scratching. Use gentle moisturizers.''"
  by (simp add: get_preventive_measures_from_gemini_def truthy_def get_fallback_measures_def)

text \<open>
  C8, amended. For every generated result (via "gemini"), \<open>advice_text\<close> is the bullets
  joined by single spaces, then a space, then the consult line.
\<close>

theorem advice_text_generated:
  "via (get_preventive_measures_from_gemini k outcome) = ''gemini'' \<longrightarrow>
   advice_text (get_preventive_measures_from_gemini k outcome) =
     str_join '' '' (bullets (get_preventive_measures_from_gemini k outcome)) @ '' '' @
     consult (get_preventive_measures_from_gemini k outcome)"
  by (auto simp: get_preventive_measures_from_gemini_def fallback_fields
           split: service_outcome.splits prod.splits)

theorem advice_text_generated_witness:
  "advice_text (get_preventive_measures_from_gemini (Some ''key'')
      (Service_text (''1. Wash.'' @ [CHR 0x0A] @ ''2. Dry.'' @ [CHR 0x0A] @
                     ''When to see a doctor: If it spreads.''))) =
   ''Wash. Dry. If it spreads.''"
proof -
  let ?r = "get_preventive_measures_from_gemini (Some ''key'')
      (Service_text (''1. Wash.'' @ [CHR 0x0A] @ ''2. Dry.'' @ [CHR 0x0A] @
                     ''When to see a doctor: If it spreads.''))"
  have v: "via ?r = ''gemini''"
    by code_simp
  have b: "bullets ?r = [''Wash.'', ''Dry.'']"
    by code_simp
  have c: "consult ?r = ''If it spreads.''"
    by code_simp
  from v b c advice_text_generated [of "Some ''key''"
      "Service_text (''1. Wash.'' @ [CHR 0x0A] @ ''2. Dry.'' @ [CHR 0x0A] @
                     ''When to see a doctor: If it spreads.'')"]
  show ?thesis
    by simp
qed

text \<open>
  C9, as stated, fails: every line of the response that starts with "1.", "2." or "3."
  becomes a bullet, so a response that numbers a second list yields more than 3 bullets.
\<close>

theorem bullets_bound_counterexample:
  "\<not> length (bullets (get_preventive_measures_from_gemini (Some ''key'')
        (Service_text (''1. Wash.'' @ [CHR 0x0A] @ ''2. Dry.'' @ [CHR 0x0A] @ ''3. Rest.'' @
                       [CHR 0x0A] @ ''See a doctor if:'' @ [CHR 0x0A] @ ''1. It spreads.'')))) \<le> 3"
  by code_simp

text \<open>
  C9, amended. The via field of every result is "gemini" or "fallback".  A fallback
  result has exactly 3 bullets.  A generated result has at least one bullet, and has one
  bullet for each stripped non-blank line of the response that starts with "1.", "2." or
  "3.", in the order of the lines (their number is not bounded otherwise).
\<close>

theorem advice_result_shape:
  "r = get_preventive_measures_from_gemini k outcome \<Longrightarrow>
   via r \<in> {''gemini'', ''fallback''} \<and>
   (via r = ''fallback'' \<longrightarrow> length (bullets r) = 3) \<and>
   (via r = ''gemini'' \<longrightarrow>
      bullets r \<noteq> [] \<and>
      (\<exists>text. outcome = Service_text text \<and>
         bullets r = map (\<lambda>l. str_strip (drop 2 l)) (filter is_numbered (response_lines text))))"
proof (cases "via (get_preventive_measures_from_gemini k outcome) = ''gemini''")
  case True
  assume r: "r = get_preventive_measures_from_gemini k outcome"
  from True obtain resp where t: "outcome = Service_text resp"
    and n: "filter is_numbered (response_lines resp) \<noteq> []" and k: "truthy k"
    by (auto simp: generated_iff)
  obtain bs c where p: "parse_lines (response_lines resp) ([], []) = (bs, c)"
    by (cases "parse_lines (response_lines resp) ([], [])")
  have bs: "bs = map (\<lambda>l. str_strip (drop 2 l)) (filter is_numbered (response_lines resp))"
    using parse_lines_bullets [of "response_lines resp" "[]" "[]"] p by simp
  with n have "bs \<noteq> []" by simp
  with r t k p bs show ?thesis
    by (simp add: get_preventive_measures_from_gemini_def)
next
  case False
  assume r: "r = get_preventive_measures_from_gemini k outcome"
  from False have "get_preventive_measures_from_gemini k outcome = get_fallback_measures"
    by (auto simp: get_preventive_measures_from_gemini_def split: service_outcome.splits prod.splits if_splits)
  with r show ?thesis
    by (simp add: fallback_fields)
qed

theorem advice_result_shape_witness:
  "via (get_preventive_measures_from_gemini (Some ''key'')
        (Service_text (''1. Wash.'' @ [CHR 0x0A] @ ''2. Dry.''))) = ''gemini'' \<and>
   bullets (get_preventive_measures_from_gemini (Some ''key'')
        (Service_text (''1. Wash.'' @ [CHR 0x0A] @ ''2. Dry.''))) \<noteq> [] \<and>
   length (bullets (get_preventive_measures_from_gemini (Some ''key'') (Service_raises []))) = 3"
proof -
  have v: "via (get_preventive_measures_from_gemini (Some ''key'')
        (Service_text (''1. Wash.'' @ [CHR 0x0A] @ ''2. Dry.''))) = ''gemini''"
    by code_simp
  have f: "via (get_preventive_measures_from_gemini (Some ''key'') (Service_raises [])) = ''fallback''"
    by code_simp
  from v f
    advice_result_shape [OF refl, of "Some ''key''" "Service_text (''1. Wash.'' @ [CHR 0x0A] @ ''2. Dry.'')"]
    advice_result_shape [OF refl, of "Some ''key''" "Service_raises []"]
  show ?thesis
    by blast
qed


section \<open>Properties of the class registry\<close>

text \<open>Reading the digits back gives the number, so \<open>str_nat\<close> is injective.\<close>

lemma str_nat_inverse: "foldl (\<lambda>a c. 10 * a + (of_char c - 48)) 0 (str_nat n) = n"
proof (induction n rule: str_nat.induct)
  case (1 n)
  show ?case
  proof (cases "n < 10")
    case True
    then show ?thesis
      by (simp add: str_nat.simps [of n])
  next
    case False
    with 1 show ?thesis
      by (simp add: str_nat.simps [of n])
  qed
qed

lemma inj_str_nat: "inj str_nat"
  by (rule inj_on_inverseI [where g = "foldl (\<lambda>a c. 10 * a + (of_char c - 48)) 0"])
     (rule str_nat_inverse)

lemma those_map_Some:
  "\<forall>x\<in>set xs. f x \<noteq> None \<Longrightarrow> those (map f xs) = Some (map (\<lambda>x. the (f x)) xs)"
  by (induction xs) auto

lemma those_map_None:
  "\<exists>x\<in>set xs. f x = None \<Longrightarrow> those (map f xs) = None"
  by (induction xs) (auto split: option.splits)

lemma clean_range_iff:
  assumes "distinct (map fst kvs)"
  shows "(\<forall>i<length kvs. str_nat i \<in> fst ` set kvs) \<longleftrightarrow>
         fst ` set kvs = str_nat ` {..<length kvs}"
proof
  assume all: "\<forall>i<length kvs. str_nat i \<in> fst ` set kvs"
  then have sub: "str_nat ` {..<length kvs} \<subseteq> fst ` set kvs"
    by auto
  have "card (str_nat ` {..<length kvs}) = length kvs"
    using inj_str_nat by (simp add: card_image inj_on_def)
  moreover have "card (fst ` set kvs) = length kvs"
    using assms distinct_card [of "map fst kvs"] by simp
  ultimately show "fst ` set kvs = str_nat ` {..<length kvs}"
    using sub card_subset_eq [of "fst ` set kvs" "str_nat ` {..<length kvs}"] by simp
next
  assume "fst ` set kvs = str_nat ` {..<length kvs}"
  then show "\<forall>i<length kvs. str_nat i \<in> fst ` set kvs"
    by simp
qed

lemma load_class_names_object:
  "\<not> (\<exists>ys. map_of kvs ''classes'' = Some (JArray ys)) \<Longrightarrow>
   load_class_names (Some (JObject kvs)) =
     (if \<forall>i<length kvs. str_nat i \<in> fst ` set kvs
      then map (\<lambda>i. the (map_of kvs (str_nat i))) [0..<length kvs]
      else map snd kvs)"
proof (cases "\<forall>i<length kvs. str_nat i \<in> fst ` set kvs")
  case True
  assume no: "\<not> (\<exists>ys. map_of kvs ''classes'' = Some (JArray ys))"
  from True have "\<forall>i\<in>set [0..<length kvs]. map_of kvs (str_nat i) \<noteq> None"
    by (simp add: map_of_eq_None_iff)
  then have "those (map (\<lambda>i. map_of kvs (str_nat i)) [0..<length kvs]) =
      Some (map (\<lambda>i. the (map_of kvs (str_nat i))) [0..<length kvs])"
    by (rule those_map_Some)
  with no True show ?thesis
    by (auto simp: load_class_names_def split: option.splits json.splits)
next
  case False
  assume no: "\<not> (\<exists>ys. map_of kvs ''classes'' = Some (JArray ys))"
  from False have "\<exists>i\<in>set [0..<length kvs]. map_of kvs (str_nat i) = None"
    by (auto simp: map_of_eq_None_iff)
  then have "those (map (\<lambda>i. map_of kvs (str_nat i)) [0..<length kvs]) = None"
    by (rule those_map_None)
  with no False show ?thesis
    by (auto simp: load_class_names_def split: option.splits json.splits)
qed

text \<open>
  C5. The loader returns the empty list when the file is missing; the list itself when
  the file holds a list; the list under the key "classes" when the file holds an object
  with such a list.  For any other object with \<open>N\<close> members it returns the values in the
  order of the keys "0", ..., "N-1" when these are exactly its keys, and the values in
  insertion order otherwise.
\<close>

theorem load_class_names_shapes:
  "load_class_names None = [] \<and>
   load_class_names (Some (JArray xs)) = xs \<and>
   (map_of kvs ''classes'' = Some (JArray xs) \<longrightarrow> load_class_names (Some (JObject kvs)) = xs) \<and>
   (distinct (map fst kvs) \<and> \<not> (\<exists>ys. map_of kvs ''classes'' = Some (JArray ys)) \<and>
    fst ` set kvs = str_nat ` {..<length kvs} \<longrightarrow>
      load_class_names (Some (JObject kvs)) =
        map (\<lambda>i. the (map_of kvs (str_nat i))) [0..<length kvs]) \<and>
   (distinct (map fst kvs) \<and> \<not> (\<exists>ys. map_of kvs ''classes'' = Some (JArray ys)) \<and>
    fst ` set kvs \<noteq> str_nat ` {..<length kvs} \<longrightarrow>
      load_class_names (Some (JObject kvs)) = map snd kvs)"
proof -
  have a: "load_class_names None = []"
    by (simp add: load_class_names_def)
  have b: "load_class_names (Some (JArray xs)) = xs"
    by (simp add: load_class_names_def)
  have c: "map_of kvs ''classes'' = Some (JArray xs) \<longrightarrow>
      load_class_names (Some (JObject kvs)) = xs"
    by (simp add: load_class_names_def)
  have d: "distinct (map fst kvs) \<and> \<not> (\<exists>ys. map_of kvs ''classes'' = Some (JArray ys)) \<longrightarrow>
      load_class_names (Some (JObject kvs)) =
        (if fst ` set kvs = str_nat ` {..<length kvs}
         then map (\<lambda>i. the (map_of kvs (str_nat i))) [0..<length kvs]
         else map snd kvs)"
    using load_class_names_object [of kvs] clean_range_iff [of kvs] by auto
  from a b c d show ?thesis
    by auto
qed

theorem load_class_names_shapes_witness:
  "load_class_names (Some (JObject [(''classes'', JArray [JString ''acne'', JString ''eczema''])])) =
     [JString ''acne'', JString ''eczema''] \<and>
   load_class_names (Some (JObject [(''1'', JString ''eczema''), (''0'', JString ''acne'')])) =
     [JString ''acne'', JString ''eczema''] \<and>
   load_class_names (Some (JObject [(''1'', JString ''eczema''), (''a'', JString ''acne'')])) =
     [JString ''eczema'', JString ''acne'']"
proof -
  have s0: "str_nat 0 = ''0''"
    by code_simp
  have s1: "str_nat (Suc 0) = ''1''"
    by code_simp
  have r: "str_nat ` {..<Suc (Suc 0)} = {''0'', ''1''}"
    using s0 s1 by (auto simp: lessThan_Suc)
  have h1: "fst ` set [(''1'', JString ''eczema''), (''0'', JString ''acne'')] =
      str_nat ` {..<length [(''1'', JString ''eczema''), (''0'', JString ''acne'')]}"
    by (simp add: r insert_commute)
  have h2: "fst ` set [(''1'', JString ''eczema''), (''a'', JString ''acne'')] \<noteq>
      str_nat ` {..<length [(''1'', JString ''eczema''), (''a'', JString ''acne'')]}"
  proof
    assume eq: "fst ` set [(''1'', JString ''eczema''), (''a'', JString ''acne'')] =
      str_nat ` {..<length [(''1'', JString ''eczema''), (''a'', JString ''acne'')]}"
    have "''a'' \<in> fst ` set [(''1'', JString ''eczema''), (''a'', JString ''acne'')]"
      by simp
    with eq have "''a'' \<in> str_nat ` {..<length [(''1'', JString ''eczema''), (''a'', JString ''acne'')]}"
      by blast
    then show False
      by (simp add: r)
  qed
  from h1 h2
    load_class_names_shapes
      [of "[JString ''acne'', JString ''eczema'']"
          "[(''classes'', JArray [JString ''acne'', JString ''eczema''])]"]
    load_class_names_shapes [of "[]" "[(''1'', JString ''eczema''), (''0'', JString ''acne'')]"]
    load_class_names_shapes [of "[]" "[(''1'', JString ''eczema''), (''a'', JString ''acne'')]"]
  show ?thesis
    by (simp add: s0 s1 upt_rec [of 0] upt_rec [of "Suc 0"])
qed

section \<open>Properties of the prediction decoder\<close>

lemma argmax_loop_spec:
  "(argmax_loop xs i b bv = b \<and> (\<forall>x\<in>set xs. x \<le> bv)) \<or>
   (i \<le> argmax_loop xs i b bv \<and> argmax_loop xs i b bv < i + length xs \<and>
    bv < xs ! (argmax_loop xs i b bv - i) \<and>
    (\<forall>k < argmax_loop xs i b bv - i. xs ! k < xs ! (argmax_loop xs i b bv - i)) \<and>
    (\<forall>x\<in>set xs. x \<le> xs ! (argmax_loop xs i b bv - i)))"
proof (induction xs arbitrary: i b bv)
  case Nil
  then show ?case by simp
next
  case (Cons x xs)
  show ?case
  proof (cases "x > bv")
    case True
    let ?r = "argmax_loop xs (Suc i) i x"
    from Cons [of "Suc i" i x] consider
      (stay) "?r = i" "\<forall>y\<in>set xs. y \<le> x"
      | (move) "Suc i \<le> ?r" "?r < Suc i + length xs" "x < xs ! (?r - Suc i)"
          "\<forall>k < ?r - Suc i. xs ! k < xs ! (?r - Suc i)" "\<forall>y\<in>set xs. y \<le> xs ! (?r - Suc i)"
      by blast
    then show ?thesis
    proof cases
      case stay
      with True show ?thesis by simp
    next
      case move
      from move(1) have d: "?r - i = Suc (?r - Suc i)" by simp
      have "\<forall>k < ?r - i. (x # xs) ! k < (x # xs) ! (?r - i)"
        using move(3,4) d by (auto simp: nth_Cons split: nat.splits)
      moreover have "\<forall>y\<in>set (x # xs). y \<le> (x # xs) ! (?r - i)"
        using move(3,5) d by auto
      moreover have "bv < (x # xs) ! (?r - i)"
        using True move(3) d by simp
      ultimately show ?thesis
        using True move(1,2) by simp
    qed
  next
    case False
    let ?r = "argmax_loop xs (Suc i) b bv"
    from Cons [of "Suc i" b bv] consider
      (stay) "?r = b" "\<forall>y\<in>set xs. y \<le> bv"
      | (move) "Suc i \<le> ?r" "?r < Suc i + length xs" "bv < xs ! (?r - Suc i)"
          "\<forall>k < ?r - Suc i. xs ! k < xs ! (?r - Suc i)" "\<forall>y\<in>set xs. y \<le> xs ! (?r - Suc i)"
      by blast
    then show ?thesis
    proof cases
      case stay
      with False show ?thesis by simp
    next
      case move
      from move(1) have d: "?r - i = Suc (?r - Suc i)" by simp
      have "\<forall>k < ?r - i. (x # xs) ! k < (x # xs) ! (?r - i)"
        using False move(3,4) d by (auto simp: nth_Cons split: nat.splits)
      moreover have "\<forall>y\<in>set (x # xs). y \<le> (x # xs) ! (?r - i)"
        using False move(3,5) d by auto
      moreover have "bv < (x # xs) ! (?r - i)"
        using move(3) d by simp
      ultimately show ?thesis
        using False move(1,2) by simp
    qed
  qed
qed

lemma np_argmax_spec:
  assumes "xs \<noteq> []"
  shows "\<exists>r. np_argmax xs = Inr r \<and> r < length xs \<and>
             (\<forall>j<length xs. xs ! j \<le> xs ! r) \<and> (\<forall>j<r. xs ! j < xs ! r)"
proof -
  from assms obtain x rest where xs: "xs = x # rest"
    by (cases xs) auto
  let ?r = "argmax_loop rest (Suc 0) 0 x"
  have r: "np_argmax xs = Inr ?r"
    by (simp add: np_argmax_def xs)
  have "(?r = 0 \<and> (\<forall>y\<in>set rest. y \<le> x)) \<or>
        (Suc 0 \<le> ?r \<and> ?r < Suc 0 + length rest \<and> x < rest ! (?r - Suc 0) \<and>
         (\<forall>k < ?r - Suc 0. rest ! k < rest ! (?r - Suc 0)) \<and>
         (\<forall>y\<in>set rest. y \<le> rest ! (?r - Suc 0)))"
    by (rule argmax_loop_spec)
  then show ?thesis
  proof
    assume stay: "?r = 0 \<and> (\<forall>y\<in>set rest. y \<le> x)"
    then have "\<forall>j<length xs. xs ! j \<le> xs ! 0"
      by (auto simp: xs nth_Cons split: nat.splits)
    with r stay show ?thesis
      by (simp add: xs)
  next
    assume move: "Suc 0 \<le> ?r \<and> ?r < Suc 0 + length rest \<and> x < rest ! (?r - Suc 0) \<and>
         (\<forall>k < ?r - Suc 0. rest ! k < rest ! (?r - Suc 0)) \<and>
         (\<forall>y\<in>set rest. y \<le> rest ! (?r - Suc 0))"
    then obtain q where q: "?r = Suc q"
      by (cases ?r) auto
    have a: "\<forall>j<length xs. xs ! j \<le> xs ! ?r"
      using move by (auto simp: xs q nth_Cons split: nat.splits)
    have b: "\<forall>j<?r. xs ! j < xs ! ?r"
      using move by (auto simp: xs q nth_Cons split: nat.splits)
    from r a b move show ?thesis
      by (simp add: xs)
  qed
qed

lemma dict_set_subset: "set (dict_set k v m) \<subseteq> insert (k, v) (set m)"
  by (induction m) (auto split: if_splits)

lemma dict_set_map_fst:
  "map fst (dict_set k v m) = (if k \<in> fst ` set m then map fst m else map fst m @ [k])"
  by (induction m) (force split: if_splits)+

lemma dict_set_keys: "fst ` set (dict_set k v m) = insert k (fst ` set m)"
proof -
  have "set (map fst (dict_set k v m)) = insert k (set (map fst m))"
  proof (cases "k \<in> fst ` set m")
    case True
    then have "map fst (dict_set k v m) = map fst m"
      by (simp add: dict_set_map_fst)
    with True show ?thesis
      by (simp add: insert_absorb)
  next
    case False
    then have "map fst (dict_set k v m) = map fst m @ [k]"
      by (simp add: dict_set_map_fst)
    then show ?thesis
      by simp
  qed
  then show ?thesis
    by simp
qed

lemma dict_set_values: "snd ` set (dict_set k v m) \<subseteq> insert v (snd ` set m)"
  using dict_set_subset [of k v m] by force


lemma fold_dict_set_keys:
  "fst ` set (fold (\<lambda>(i, p) m. dict_set (L i) p m) ips m) = fst ` set m \<union> L ` fst ` set ips"
proof (induction ips arbitrary: m)
  case Nil
  then show ?case by simp
next
  case (Cons ip ips)
  obtain i p where ip: "ip = (i, p)" by (cases ip)
  have "fst ` set (fold (\<lambda>(i, p) m. dict_set (L i) p m) ips (dict_set (L i) p m)) =
      fst ` set (dict_set (L i) p m) \<union> L ` fst ` set ips"
    by (rule Cons.IH)
  then show ?case
    by (simp add: ip dict_set_keys)
qed

lemma fold_dict_set_values:
  "snd ` set (fold (\<lambda>(i, p) m. dict_set (L i) p m) ips m) \<subseteq> snd ` set m \<union> snd ` set ips"
proof (induction ips arbitrary: m)
  case Nil
  then show ?case by simp
next
  case (Cons ip ips)
  obtain i p where ip: "ip = (i, p)" by (cases ip)
  have step: "fold (\<lambda>(i, p) m. dict_set (L i) p m) (ip # ips) m =
      fold (\<lambda>(i, p) m. dict_set (L i) p m) ips (dict_set (L i) p m)"
    by (simp add: ip)
  have vals: "snd ` set (ip # ips) = insert p (snd ` set ips)"
    by (simp add: ip)
  have "snd ` set (fold (\<lambda>(i, p) m. dict_set (L i) p m) ips (dict_set (L i) p m))
      \<subseteq> snd ` set (dict_set (L i) p m) \<union> snd ` set ips"
    by (rule Cons.IH)
  with dict_set_values [of "L i" p m] show ?case
    unfolding step vals by blast
qed


lemma length_normalize_scores: "length (normalize_scores preds) = length preds"
  by (simp add: normalize_scores_def Let_def)

lemma class_label_eq:
  "class_label class_names i = (if i < length class_names then class_names ! i else str_nat i)"
  by (auto simp: class_label_def)

lemma predict_image_Inr:
  "np_argmax (normalize_scores preds) = Inr t \<Longrightarrow>
   predict_image preds class_names =
     Inr \<lparr>class_id = t, disease = class_label class_names t,
          confidence = normalize_scores preds ! t,
          probabilities = fold (\<lambda>(i, p) m. dict_set (class_label class_names i) p m)
                            (enumerate 0 (normalize_scores preds)) []\<rparr>"
  by (simp add: predict_image_def Let_def)

lemma fst_set_enumerate: "fst ` set (enumerate 0 ps) = {..<length ps}"
proof -
  have "fst ` set (enumerate 0 ps) = set (map fst (enumerate 0 ps))"
    by (simp only: set_map)
  also have "\<dots> = set [0..<0 + length ps]"
    by (simp only: map_fst_enumerate)
  also have "\<dots> = {..<length ps}"
    by auto
  finally show ?thesis .
qed

lemma snd_set_enumerate: "snd ` set (enumerate 0 ps) = set ps"
proof -
  have "snd ` set (enumerate 0 ps) = set (map snd (enumerate 0 ps))"
    by (simp only: set_map)
  also have "\<dots> = set ps"
    by (simp only: map_snd_enumerate)
  finally show ?thesis .
qed



text \<open>
  C4. For a non-empty score vector the decoder returns a result whose class id is an index
  of the largest entry of the normalized vector, and the lowest such index: every entry
  before it is strictly smaller.  The disease label is the registry entry at that index
  when the registry has one, and the decimal string of the index otherwise; the keys of
  the probabilities mapping are the labels that the same rule gives to the indices of the
  vector.
\<close>

theorem predict_image_top_class:
  assumes "preds \<noteq> []"
  shows "\<exists>r. predict_image preds class_names = Inr r \<and>
    class_id r < length preds \<and>
    (\<forall>j<length preds. normalize_scores preds ! j \<le> normalize_scores preds ! class_id r) \<and>
    (\<forall>j<class_id r. normalize_scores preds ! j < normalize_scores preds ! class_id r) \<and>
    disease r =
      (if class_id r < length class_names then class_names ! class_id r
       else str_nat (class_id r)) \<and>
    fst ` set (probabilities r) =
      (\<lambda>i. if i < length class_names then class_names ! i else str_nat i) ` {..<length preds}"
proof -
  let ?probs = "normalize_scores preds"
  from assms have "?probs \<noteq> []"
    using length_normalize_scores [of preds] by (cases ?probs) auto
  then obtain t where t: "np_argmax ?probs = Inr t" and lt: "t < length ?probs"
    and top: "\<forall>j<length ?probs. ?probs ! j \<le> ?probs ! t"
    and first: "\<forall>j<t. ?probs ! j < ?probs ! t"
    using np_argmax_spec [of ?probs] by blast
  have keys: "fst ` set (fold (\<lambda>(i, p) m. dict_set (class_label class_names i) p m)
                  (enumerate 0 ?probs) []) = class_label class_names ` {..<length preds}"
    by (simp add: fold_dict_set_keys fst_set_enumerate length_normalize_scores)
  have lab: "class_label class_names =
      (\<lambda>i. if i < length class_names then class_names ! i else str_nat i)"
    by (rule ext) (rule class_label_eq)
  from predict_image_Inr [OF t, of class_names] lt top first keys show ?thesis
    by (simp add: length_normalize_scores lab)
qed

theorem predict_image_top_class_witness:
  "(\<exists>r. predict_image [1, 2, 2] [''a''] = Inr r \<and>
    class_id r < length [1, 2, 2 :: real] \<and>
    (\<forall>j<length [1, 2, 2 :: real].
        normalize_scores [1, 2, 2] ! j \<le> normalize_scores [1, 2, 2] ! class_id r) \<and>
    (\<forall>j<class_id r. normalize_scores [1, 2, 2] ! j < normalize_scores [1, 2, 2] ! class_id r) \<and>
    disease r = (if class_id r < length [''a''] then [''a''] ! class_id r else str_nat (class_id r)) \<and>
    fst ` set (probabilities r) =
      (\<lambda>i. if i < length [''a''] then [''a''] ! i else str_nat i) ` {..<length [1, 2, 2 :: real]}) \<and>
   predict_image [1, 2, 2] [''a''] =
     Inr \<lparr>class_id = 1, disease = ''1'', confidence = 2 / 5,
          probabilities = [(''a'', 1 / 5), (''1'', 2 / 5), (''2'', 2 / 5)]\<rparr>"
proof -
  have ne: "[1, 2, 2 :: real] \<noteq> []"
    by simp
  have v: "predict_image [1, 2, 2] [''a''] =
     Inr \<lparr>class_id = 1, disease = ''1'', confidence = 2 / 5,
          probabilities = [(''a'', 1 / 5), (''1'', 2 / 5), (''2'', 2 / 5)]\<rparr>"
    by code_simp
  show ?thesis
    by (rule conjI [OF predict_image_top_class [OF ne, of "[''a'']"] v])
qed

text \<open>
  C2. For a score vector of length \<open>N \<ge> 1\<close> whose sum is at most 0, the normalized vector
  is the uniform one, \<open>N\<close> entries equal to \<open>1/N\<close>; the result returned has confidence
  \<open>1/N\<close> and every value of its probabilities mapping is \<open>1/N\<close>.
\<close>

theorem predict_image_uniform:
  assumes "preds \<noteq> []" and "sum_list preds \<le> 0"
  shows "normalize_scores preds = replicate (length preds) (1 / real (length preds)) \<and>
    (\<exists>r. predict_image preds class_names = Inr r \<and>
         confidence r = 1 / real (length preds) \<and>
         (\<forall>v\<in>snd ` set (probabilities r). v = 1 / real (length preds)))"
proof -
  let ?u = "1 / real (length preds)"
  let ?probs = "normalize_scores preds"
  let ?m = "fold (\<lambda>(i, p) m. dict_set (class_label class_names i) p m) (enumerate 0 ?probs) []"
  have probs: "?probs = replicate (length preds) ?u"
    using assms(2) by (simp add: normalize_scores_def Let_def map_replicate_const)
  from assms(1) have "?probs \<noteq> []"
    by (simp add: probs)
  then obtain t where t: "np_argmax ?probs = Inr t" and lt: "t < length ?probs"
    using np_argmax_spec [of ?probs] by blast
  from lt have "t < length preds"
    by (simp add: length_normalize_scores)
  then have "replicate (length preds) ?u ! t = ?u"
    by simp
  then have conf: "?probs ! t = ?u"
    by (simp only: probs)
  have "snd ` set ?m \<subseteq> snd ` set ([] :: (string \<times> real) list) \<union> snd ` set (enumerate 0 ?probs)"
    by (rule fold_dict_set_values)
  then have sub: "snd ` set ?m \<subseteq> set ?probs"
    by (simp only: snd_set_enumerate list.set image_empty Un_empty_left)
  have "set (replicate (length preds) ?u) \<subseteq> {?u}"
    by auto
  then have "set ?probs \<subseteq> {?u}"
    by (simp only: probs)
  with sub have vals: "\<forall>v\<in>snd ` set ?m. v = ?u"
    by blast
  have ex: "\<exists>r. predict_image preds class_names = Inr r \<and> confidence r = ?u \<and>
      (\<forall>v\<in>snd ` set (probabilities r). v = ?u)"
    using predict_image_Inr [OF t, of class_names] conf vals by simp
  from probs ex show ?thesis
    by (rule conjI)
qed

theorem predict_image_uniform_witness:
  "normalize_scores [-1, 0, 1] = replicate (length [-1, 0, 1 :: real]) (1 / real (length [-1, 0, 1 :: real])) \<and>
    (\<exists>r. predict_image [-1, 0, 1] [''a'', ''b'', ''c''] = Inr r \<and>
         confidence r = 1 / real (length [-1, 0, 1 :: real]) \<and>
         (\<forall>v\<in>snd ` set (probabilities r). v = 1 / real (length [-1, 0, 1 :: real])))"
proof -
  have ne: "[-1, 0, 1 :: real] \<noteq> []"
    by simp
  have s: "sum_list [-1, 0, 1 :: real] \<le> 0"
    by simp
  show ?thesis
    by (rule predict_image_uniform [OF ne s])
qed




end
